theory Spec2Isabelle
  imports Main
begin

section \<open>Values that cross the provider's boundary\<close>

text \<open>
  The provider of \<^verbatim>\<open>AuthenticationContext.provider.tsx\<close> is glue: it receives
  objects it never inspects (location, history, loggers, components, the children) and
  hands them on. Such an object is modelled by its identity.
\<close>

datatype ref = Ref nat

text \<open>
  A React component is either one given from outside or the wrapper built by
  \<^verbatim>\<open>withComponentOverrideProps(Component, customCallback)\<close>.
\<close>

datatype component = Component nat | WithComponentOverrideProps component component

text \<open>
  What a promise can be rejected with, as far as \<^verbatim>\<open>catch (error) { onError(error.message) }\<close>
  can tell: a value that is an object, with its \<^verbatim>\<open>message\<close> property (\<open>None\<close> when the
  property is undefined), or \<^verbatim>\<open>null\<close> or \<^verbatim>\<open>undefined\<close>, on which reading a property
  throws.
\<close>

datatype thrown = Obj "string option" | Nullish

text \<open>
  The \<^verbatim>\<open>TypeError\<close> the runtime throws on such a read. The text of its message is the
  engine's; a fixed text stands for it.
\<close>

definition TypeError :: thrown where
  "TypeError = Obj (Some ''TypeError'')"

text \<open>A settled promise: \<open>Inl\<close> is the rejection, \<open>Inr\<close> the fulfilment.\<close>

type_synonym 'a promise = "thrown + 'a"

section \<open>The state hook\<close>

text \<open>
  Modelled from the spec: \<^verbatim>\<open>OidcState\<close> is declared in
  \<^verbatim>\<open>AuthenticationContext.hooks\<close>, which is not among the sources. The spec's data model
  gives its fields.
\<close>

record ('um, 'u) oidc_state =
  isLoading :: bool
  isAuthenticated :: bool
  error :: "string option"
  user :: "'u option"
  userManager :: 'um

text \<open>
  What \<^verbatim>\<open>useAuthenticationContextState(userManager)\<close> returns, as the provider uses it
  (lines 108 and 109): the state it creates at mount and the five functions that dispatch
  on it. Each function is a transformer of the state. The provider is parametric in them.
\<close>

record ('um, 'u) oidc_functions =
  initialState :: "'um \<Rightarrow> ('um, 'u) oidc_state"
  loadUser :: "'u option \<Rightarrow> ('um, 'u) oidc_state \<Rightarrow> ('um, 'u) oidc_state"
  onError :: "string option \<Rightarrow> ('um, 'u) oidc_state \<Rightarrow> ('um, 'u) oidc_state"
  onLoading :: "('um, 'u) oidc_state \<Rightarrow> ('um, 'u) oidc_state"
  unloadUser :: "('um, 'u) oidc_state \<Rightarrow> ('um, 'u) oidc_state"
  onLogout :: "('um, 'u) oidc_state \<Rightarrow> ('um, 'u) oidc_state"

text \<open>
  Modelled from the spec: the hook \<^verbatim>\<open>useAuthenticationContextState\<close> of
  \<^verbatim>\<open>AuthenticationContext.hooks\<close> is not among the sources. The spec gives four
  transitions: \<^verbatim>\<open>onLoading\<close> (set isLoading=true), \<^verbatim>\<open>loadUser(user)\<close> (set user,
  isAuthenticated = user != null, isLoading=false), \<^verbatim>\<open>onError(message)\<close> (set error,
  isLoading=false), \<^verbatim>\<open>unloadUser\<close> (clear user, isAuthenticated=false). It gives neither
  the state created at mount nor what \<^verbatim>\<open>onLogout\<close> does to the state, so both are
  parameters here.
\<close>

definition useAuthenticationContextState ::
  "('um \<Rightarrow> ('um, 'u) oidc_state) \<Rightarrow> (('um, 'u) oidc_state \<Rightarrow> ('um, 'u) oidc_state)
    \<Rightarrow> ('um, 'u) oidc_functions" where
  "useAuthenticationContextState init logoutIntent =
     \<lparr> initialState = init,
       loadUser = (\<lambda>u s. s\<lparr>user := u,
                            isAuthenticated := (case u of None \<Rightarrow> False | Some _ \<Rightarrow> True),
                            isLoading := False\<rparr>),
       onError = (\<lambda>m s. s\<lparr>error := m, isLoading := False\<rparr>),
       onLoading = (\<lambda>s. s\<lparr>isLoading := True\<rparr>),
       unloadUser = (\<lambda>s. s\<lparr>user := None, isAuthenticated := False\<rparr>),
       onLogout = logoutIntent \<rparr>"

section \<open>Props and imports\<close>

text \<open>
  \<^verbatim>\<open>AuthenticationProviderProps\<close> (lines 186 to 194): the props of the exported
  component, which are \<^verbatim>\<open>AuthenticationProviderIntProps\<close> (lines 27 to 48) without the
  seven injected services. \<^verbatim>\<open>authenticateUserSilentInt\<close> (line 46) is not among the
  seven. The props are as the host hands them over, with \<^verbatim>\<open>defaultProps\<close> (lines 68
  to 78) applied.
\<close>

record ('c, 's, 'um) provider_props =
  location :: ref
  history :: ref
  loggerLevel :: nat
  logger :: ref
  notAuthenticated :: "component option"
  notAuthorized :: "component option"
  authenticating :: "component option"
  callbackComponentOverride :: "component option"
  sessionLostComponent :: "component option"
  UserStore :: 's
  isEnabled :: "bool option"
  configuration :: 'c
  children :: ref
  authenticateUserSilentInt :: "'um \<Rightarrow> ref \<Rightarrow> ref \<Rightarrow> unit promise"

text \<open>
  \<^verbatim>\<open>AuthenticationProviderIntProps\<close>: the props above and the seven services. The
  injected functions that return a promise are functions to the promise's outcome; the
  others are identities that show up in the record of calls.
\<close>

record ('c, 's, 'um) props = "('c, 's, 'um) provider_props" +
  authenticationServiceInt :: "'c \<Rightarrow> 's \<Rightarrow> 'um"
  CallbackInt :: component
  setLoggerInt :: ref
  OidcRoutesInt :: ref
  oidcLogInt :: ref
  authenticateUserInt :: "'um \<Rightarrow> ref \<Rightarrow> ref \<Rightarrow> unit promise"
  logoutUserInt :: "'um \<Rightarrow> unit promise"

text \<open>
  What the module takes from outside its props: the imports from
  \<^verbatim>\<open>@3rdparty/react-oidc-core\<close> it uses (lines 4 to 19), among them the router wrapper as
  what it does to the props it passes on; the \<^verbatim>\<open>Callback\<close> component (line 21); and the
  one method the effect calls on a handle, \<^verbatim>\<open>getUser()\<close> (line 117), which returns a
  promise (\<open>Inr\<close>; the host settles it later) or throws (\<open>Inl\<close>).
\<close>

record ('c, 's, 'um) core =
  withRouter :: "('c, 's, 'um) provider_props \<Rightarrow> ('c, 's, 'um) provider_props"
  authenticationService :: "'c \<Rightarrow> 's \<Rightarrow> 'um"
  setLogger :: ref
  OidcRoutes :: ref
  oidcLog :: ref
  authenticateUser :: "'um \<Rightarrow> ref \<Rightarrow> ref \<Rightarrow> unit promise"
  authenticateUserSilent :: "'um \<Rightarrow> ref \<Rightarrow> ref \<Rightarrow> unit promise"
  authenticateUserPopup :: "'um \<Rightarrow> ref \<Rightarrow> ref \<Rightarrow> unit promise"
  logoutUser :: "'um \<Rightarrow> unit promise"
  Callback :: component
  getUser :: "'um \<Rightarrow> thrown + unit"

section \<open>The provider instance\<close>

text \<open>The calls the provider makes on its collaborators, in order.\<close>

datatype ('c, 's, 'um) call =
    AuthenticationService 'c 's
  | SetLogger ref nat ref
  | AddOidcEvents 'um
  | RemoveOidcEvents 'um
  | GetUser 'um
  | Info ref string

text \<open>
  One provider: the reactive state, the calls made so far, one cell per run of the
  effect for its closure variable \<^verbatim>\<open>mount\<close>, the runs whose \<^verbatim>\<open>getUser()\<close> promise
  has not settled, the rejections nobody handled, the runs of the effect that threw (the
  handle and what was thrown), and the cleanup the host still has to run (its
  \<^verbatim>\<open>mount\<close> cell and the handle its \<^verbatim>\<open>removeOidcEvents\<close> is bound to).
\<close>

record ('c, 's, 'um, 'u) provider =
  oidcState :: "('um, 'u) oidc_state"
  calls :: "('c, 's, 'um) call list"
  mount :: "bool list"
  pending :: "nat list"
  unhandled :: "thrown list"
  crashed :: "('um \<times> thrown) list"
  live :: "(nat \<times> 'um) option"

definition provider0 :: "('um, 'u) oidc_state \<Rightarrow> ('c, 's, 'um, 'u) provider" where
  "provider0 s = \<lparr> oidcState = s, calls = [], mount = [], pending = [], unhandled = [],
                   crashed = [], live = None \<rparr>"

subsection \<open>The callbacks (lines 133 to 159)\<close>

definition loginCallback ::
  "('um, 'u) oidc_functions \<Rightarrow> ('c, 's, 'um) props \<Rightarrow> 'um
    \<Rightarrow> ('c, 's, 'um, 'u) provider \<Rightarrow> unit promise \<times> ('c, 's, 'um, 'u) provider" where
  "loginCallback F P um p =
     (let p1 = p\<lparr>oidcState := onLoading F (oidcState p)\<rparr>;
          p2 = p1\<lparr>calls := calls p1 @ [Info (oidcLogInt P) ''Login requested'']\<rparr>
      in (authenticateUserInt P um (location P) (history P), p2))"

definition loginPopupCallback ::
  "('um, 'u) oidc_functions \<Rightarrow> ('c, 's, 'um) core \<Rightarrow> ('c, 's, 'um) props \<Rightarrow> 'um
    \<Rightarrow> ('c, 's, 'um, 'u) provider \<Rightarrow> unit promise \<times> ('c, 's, 'um, 'u) provider" where
  "loginPopupCallback F K P um p =
     (let p1 = p\<lparr>oidcState := onLoading F (oidcState p)\<rparr>;
          p2 = p1\<lparr>calls := calls p1 @ [Info (oidcLogInt P) ''Login requested'']\<rparr>
      in (authenticateUserPopup K um (location P) (history P), p2))"

definition loginSilentCallback ::
  "('um, 'u) oidc_functions \<Rightarrow> ('c, 's, 'um) core \<Rightarrow> ('c, 's, 'um) props \<Rightarrow> 'um
    \<Rightarrow> ('c, 's, 'um, 'u) provider \<Rightarrow> unit promise \<times> ('c, 's, 'um, 'u) provider" where
  "loginSilentCallback F K P um p =
     (let p1 = p\<lparr>oidcState := onLoading F (oidcState p)\<rparr>;
          p2 = p1\<lparr>calls := calls p1 @ [Info (oidcLogInt P) ''Silent Login requested'']\<rparr>
      in (authenticateUserSilent K um (location P) (history P), p2))"

text \<open>
  \<^verbatim>\<open>logout\<close> is the one callback with a \<^verbatim>\<open>try\<close>. In the handler,
  \<^verbatim>\<open>error.message\<close> is read before \<^verbatim>\<open>onError\<close> is called: on \<^verbatim>\<open>null\<close> or
  \<^verbatim>\<open>undefined\<close> the read throws, outside the \<^verbatim>\<open>try\<close>.
\<close>

definition logoutCallback ::
  "('um, 'u) oidc_functions \<Rightarrow> ('c, 's, 'um) props \<Rightarrow> 'um
    \<Rightarrow> ('c, 's, 'um, 'u) provider \<Rightarrow> unit promise \<times> ('c, 's, 'um, 'u) provider" where
  "logoutCallback F P um p =
     (let p1 = p\<lparr>oidcState := onLogout F (oidcState p)\<rparr>
      in case logoutUserInt P um of
           Inr _ \<Rightarrow> (Inr (), p1\<lparr>calls := calls p1 @ [Info (oidcLogInt P) ''Logout successfull'']\<rparr>)
         | Inl (Obj m) \<Rightarrow> (Inr (), p1\<lparr>oidcState := onError F m (oidcState p1)\<rparr>)
         | Inl Nullish \<Rightarrow> (Inl TypeError, p1))"

subsection \<open>Render (lines 107 to 110 and 128 to 183)\<close>

text \<open>The props of the \<^verbatim>\<open>OidcRoutesInt\<close> element (lines 173 to 181).\<close>

record 'c routes =
  routes_component :: ref
  routes_notAuthenticated :: "component option"
  routes_notAuthorized :: "component option"
  routes_callbackComponent :: component
  routes_sessionLost :: "component option"
  routes_configuration :: 'c
  routes_children :: ref

text \<open>The context value (lines 162 to 171): the state spread, then the named fields.\<close>

record ('c, 's, 'um, 'u) context_value =
  value_state :: "('um, 'u) oidc_state"
  value_authenticating :: "component option"
  value_isEnabled :: "bool option"
  login :: "('c, 's, 'um, 'u) provider \<Rightarrow> unit promise \<times> ('c, 's, 'um, 'u) provider"
  loginSilent :: "('c, 's, 'um, 'u) provider \<Rightarrow> unit promise \<times> ('c, 's, 'um, 'u) provider"
  loginPopup :: "('c, 's, 'um, 'u) provider \<Rightarrow> unit promise \<times> ('c, 's, 'um, 'u) provider"
  logout :: "('c, 's, 'um, 'u) provider \<Rightarrow> unit promise \<times> ('c, 's, 'um, 'u) provider"
  events :: 'um

text \<open>What one render produces: the handle it got, the context value and the routes.\<close>

record ('c, 's, 'um, 'u) rendered =
  handle :: 'um
  provided :: "('c, 's, 'um, 'u) context_value"
  element :: "'c routes"

definition AuthenticationProviderInt ::
  "('um, 'u) oidc_functions \<Rightarrow> ('c, 's, 'um) core \<Rightarrow> ('c, 's, 'um) props
    \<Rightarrow> ('c, 's, 'um, 'u) provider
    \<Rightarrow> ('c, 's, 'um, 'u) rendered \<times> ('c, 's, 'um, 'u) provider" where
  "AuthenticationProviderInt F K P p =
     (let um = authenticationServiceInt P (configuration P) (UserStore P);
          p1 = p\<lparr>calls := calls p @ [AuthenticationService (configuration P) (UserStore P)]\<rparr>;
          CallbackComponent =
            (case callbackComponentOverride P of
               Some c \<Rightarrow> WithComponentOverrideProps (CallbackInt P) c
             | None \<Rightarrow> CallbackInt P)
      in (\<lparr> handle = um,
            provided =
              \<lparr> value_state = oidcState p1,
                value_authenticating = authenticating P,
                value_isEnabled = isEnabled P,
                login = loginCallback F P um,
                loginSilent = loginSilentCallback F K P um,
                loginPopup = loginPopupCallback F K P um,
                logout = logoutCallback F P um,
                events = userManager (oidcState p1) \<rparr>,
            element =
              \<lparr> routes_component = OidcRoutesInt P,
                routes_notAuthenticated = notAuthenticated P,
                routes_notAuthorized = notAuthorized P,
                routes_callbackComponent = CallbackComponent,
                routes_sessionLost = sessionLostComponent P,
                routes_configuration = configuration P,
                routes_children = children P \<rparr> \<rparr>, p1))"

subsection \<open>The exported component (lines 186 to 206)\<close>




subsection \<open>The effect (lines 112 to 126)\<close>

text \<open>
  The body of the effect. When \<^verbatim>\<open>getUser()\<close> returns its promise, the effect returns
  its cleanup, as the cell of its \<^verbatim>\<open>mount\<close> variable and the handle. When
  \<^verbatim>\<open>getUser()\<close> throws, the effect ends there, after \<^verbatim>\<open>addOidcEvents()\<close>: there is
  no continuation and no cleanup, so nothing holds the \<^verbatim>\<open>mount\<close> variable of line 116
  and its cell is given up.
\<close>

definition effect ::
  "('um, 'u) oidc_functions \<Rightarrow> ('c, 's, 'um) core \<Rightarrow> ('c, 's, 'um) props \<Rightarrow> 'um
    \<Rightarrow> ('c, 's, 'um, 'u) provider
    \<Rightarrow> (thrown + nat \<times> 'um) \<times> ('c, 's, 'um, 'u) provider" where
  "effect F K P um p =
     (let i = length (mount p);
          p1 = p\<lparr>oidcState := onLoading F (oidcState p),
                 calls := calls p @ [SetLogger (setLoggerInt P) (loggerLevel P) (logger P),
                                     AddOidcEvents um, GetUser um],
                 mount := mount p @ [True]\<rparr>
      in case getUser K um of
           Inl e \<Rightarrow> (Inl e, p1\<lparr>mount := mount p\<rparr>)
         | Inr _ \<Rightarrow> (Inr (i, um), p1\<lparr>pending := pending p @ [i]\<rparr>))"

text \<open>The function the effect returns (lines 122 to 125).\<close>

definition cleanup ::
  "nat \<times> 'um \<Rightarrow> ('c, 's, 'um, 'u) provider \<Rightarrow> ('c, 's, 'um, 'u) provider" where
  "cleanup c p =
     p\<lparr>calls := calls p @ [RemoveOidcEvents (snd c)], mount := (mount p)[fst c := False]\<rparr>"

text \<open>
  \<^verbatim>\<open>promise.then(f)\<close> with one argument: \<open>f\<close> runs on fulfilment; a rejection
  passes to the promise \<^verbatim>\<open>then\<close> returns, which nothing here holds on to.
\<close>

definition then_only ::
  "'a promise \<Rightarrow> ('a \<Rightarrow> ('c, 's, 'um, 'u) provider \<Rightarrow> ('c, 's, 'um, 'u) provider)
    \<Rightarrow> ('c, 's, 'um, 'u) provider \<Rightarrow> ('c, 's, 'um, 'u) provider" where
  "then_only r f p =
     (case r of Inr v \<Rightarrow> f v p | Inl e \<Rightarrow> p\<lparr>unhandled := unhandled p @ [e]\<rparr>)"

text \<open>The continuation of \<^verbatim>\<open>getUser()\<close> of the run with cell \<open>i\<close> (lines 117 to 121).\<close>

definition getUser_then ::
  "('um, 'u) oidc_functions \<Rightarrow> nat \<Rightarrow> 'u option
    \<Rightarrow> ('c, 's, 'um, 'u) provider \<Rightarrow> ('c, 's, 'um, 'u) provider" where
  "getUser_then F i u p =
     (if mount p ! i then p\<lparr>oidcState := loadUser F u (oidcState p)\<rparr> else p)"

subsection \<open>The host's lifecycle\<close>

text \<open>
  What the host does with a run of the effect for the handle \<open>um\<close>: it keeps the cleanup
  the effect returned; or, when the effect threw, it takes the component down, and this
  run has left it no cleanup to call.
\<close>

definition commit_effect ::
  "('um, 'u) oidc_functions \<Rightarrow> ('c, 's, 'um) core \<Rightarrow> ('c, 's, 'um) props \<Rightarrow> 'um
    \<Rightarrow> ('c, 's, 'um, 'u) provider \<Rightarrow> ('c, 's, 'um, 'u) provider" where
  "commit_effect F K P um p =
     (case effect F K P um p of
        (Inr c, p') \<Rightarrow> p'\<lparr>live := Some c\<rparr>
      | (Inl e, p') \<Rightarrow> p'\<lparr>crashed := crashed p' @ [(um, e)], live := None\<rparr>)"

text \<open>
  What the host framework does with the component. It mounts it: the first render, in
  which the state hook makes its fresh state for the handle the render got, and then the
  effect. It renders it again and runs the pending cleanup and then the effect when a
  dependency of the effect (line 126) has changed: the handle, which is compared here, or
  another one, which the event tells. It unmounts it: it runs the pending cleanup. And it
  settles a \<^verbatim>\<open>getUser()\<close> promise that is still pending. An event the host cannot
  produce (mounting what is mounted, unmounting what is not, settling a promise twice) has
  no successor.
\<close>

datatype ('c, 's, 'um, 'u) event =
    Mount "('c, 's, 'um) props"
  | Render "('c, 's, 'um) props" bool
  | Unmount
  | GetUserSettles nat "'u option promise"

fun step ::
  "('um, 'u) oidc_functions \<Rightarrow> ('c, 's, 'um) core \<Rightarrow> ('c, 's, 'um, 'u) event
    \<Rightarrow> ('c, 's, 'um, 'u) provider \<Rightarrow> ('c, 's, 'um, 'u) provider option" where
  "step F K (Mount P) p =
     (case live p of
        Some _ \<Rightarrow> None
      | None \<Rightarrow>
          (let um = authenticationServiceInt P (configuration P) (UserStore P);
               (v, p1) = AuthenticationProviderInt F K P (p\<lparr>oidcState := initialState F um\<rparr>)
           in Some (commit_effect F K P (handle v) p1)))"
| "step F K (Render P changed) p =
     (case live p of
        None \<Rightarrow> None
      | Some c0 \<Rightarrow>
          (let (v, p1) = AuthenticationProviderInt F K P p
           in if changed \<or> handle v \<noteq> snd c0
              then Some (commit_effect F K P (handle v) (cleanup c0 p1))
              else Some p1))"
| "step F K Unmount p =
     (case live p of
        None \<Rightarrow> None
      | Some c0 \<Rightarrow> Some ((cleanup c0 p)\<lparr>live := None\<rparr>))"
| "step F K (GetUserSettles i r) p =
     (if i \<in> set (pending p)
      then Some (then_only r (getUser_then F i) (p\<lparr>pending := removeAll i (pending p)\<rparr>))
      else None)"

fun run ::
  "('um, 'u) oidc_functions \<Rightarrow> ('c, 's, 'um) core \<Rightarrow> ('c, 's, 'um, 'u) event list
    \<Rightarrow> ('c, 's, 'um, 'u) provider \<Rightarrow> ('c, 's, 'um, 'u) provider option" where
  "run F K [] p = Some p"
| "run F K (e # es) p = (case step F K e p of None \<Rightarrow> None | Some p' \<Rightarrow> run F K es p')"

section \<open>Reading a render and a record of calls\<close>

text \<open>
  The handle a render with props \<open>P\<close> gets from the factory (line 107), and the
  context value it provides.
\<close>

abbreviation handle_of where
  "handle_of P \<equiv> authenticationServiceInt P (configuration P) (UserStore P)"

abbreviation context_of where
  "context_of F K P p \<equiv> provided (fst (AuthenticationProviderInt F K P p))"

text \<open>
  Kinds of calls and of events, and the handle a call or a render is about.
\<close>

fun isAuthenticationService :: "('c, 's, 'um) call \<Rightarrow> bool" where
  "isAuthenticationService (AuthenticationService c s) = True"
| "isAuthenticationService c = False"




fun call_handle :: "('c, 's, 'um) call \<Rightarrow> 'um option" where
  "call_handle (AddOidcEvents um) = Some um"
| "call_handle (RemoveOidcEvents um) = Some um"
| "call_handle (GetUser um) = Some um"
| "call_handle c = None"

fun renders :: "('c, 's, 'um, 'u) event \<Rightarrow> bool" where
  "renders (Mount P) = True"
| "renders (Render P changed) = True"
| "renders e = False"

fun settles :: "('c, 's, 'um, 'u) event \<Rightarrow> bool" where
  "settles (GetUserSettles i r) = True"
| "settles e = False"

fun event_handle :: "('c, 's, 'um, 'u) event \<Rightarrow> 'um option" where
  "event_handle (Mount P) = Some (authenticationServiceInt P (configuration P) (UserStore P))"
| "event_handle (Render P changed) = Some (authenticationServiceInt P (configuration P) (UserStore P))"
| "event_handle e = None"


text \<open>
  How often the factory has been called, and how often subscriptions have been added and
  removed.
\<close>

definition factory_calls :: "('c, 's, 'um, 'u) provider \<Rightarrow> nat" where
  "factory_calls p = length (filter isAuthenticationService (calls p))"




section \<open>Invariants of the lifecycle\<close>

text \<open>
  The \<^verbatim>\<open>mount\<close> cells: a cell holds true only for the run whose cleanup is pending;
  that run's cell exists and holds true; and a promise that has not settled belongs to a
  run that has a cell.
\<close>

definition mount_inv :: "('c, 's, 'um, 'u) provider \<Rightarrow> bool" where
  "mount_inv p \<longleftrightarrow>
     (\<forall>j < length (mount p). mount p ! j \<longrightarrow> map_option fst (live p) = Some j)
   \<and> (case live p of None \<Rightarrow> True | Some c \<Rightarrow> fst c < length (mount p) \<and> mount p ! fst c)
   \<and> (\<forall>i \<in> set (pending p). i < length (mount p))"


text \<open>
  Only the handle \<open>h\<close> is in use.
\<close>

definition one_handle :: "'um \<Rightarrow> ('c, 's, 'um, 'u) provider \<Rightarrow> bool" where
  "one_handle h p \<longleftrightarrow>
     (\<forall>c \<in> set (calls p). call_handle c = None \<or> call_handle c = Some h)
   \<and> (live p = None \<or> map_option snd (live p) = Some h)"

section \<open>A concrete provider\<close>

text \<open>
  Props whose injected action builders all reject; a core whose builders resolve, one
  whose popup and silent builders reject and one whose \<^verbatim>\<open>getUser()\<close> throws; and a
  state hook with the four transitions.
\<close>

definition state_example :: "nat \<Rightarrow> (nat, string) oidc_state" where
  "state_example um = \<lparr> isLoading = False, isAuthenticated = False, error = None, user = None, userManager = um \<rparr>"

definition hook_example :: "(nat, string) oidc_functions" where
  "hook_example = useAuthenticationContextState state_example (\<lambda>s. s)"

definition props_example :: "(string, nat, nat) props" where
  "props_example =
     \<lparr> location = Ref 0, history = Ref 1, loggerLevel = 0, logger = Ref 2,
       notAuthenticated = None, notAuthorized = None, authenticating = None,
       callbackComponentOverride = None, sessionLostComponent = None,
       UserStore = 0, isEnabled = Some True, configuration = ''authority'',
       children = Ref 3,
       authenticateUserSilentInt = (\<lambda>um l h. Inl (Obj (Some ''injected silent''))),
       authenticationServiceInt = (\<lambda>c s. 7),
       CallbackInt = Component 0, setLoggerInt = Ref 4, OidcRoutesInt = Ref 5,
       oidcLogInt = Ref 6,
       authenticateUserInt = (\<lambda>um l h. Inl (Obj (Some ''injected sign-in''))),
       logoutUserInt = (\<lambda>um. Inl (Obj (Some ''network down''))) \<rparr>"

definition core_example :: "(string, nat, nat) core" where
  "core_example =
     \<lparr> withRouter = (\<lambda>r. r\<lparr>location := Ref 10, history := Ref 11\<rparr>),
       authenticationService = (\<lambda>c s. length c + s),
       setLogger = Ref 14, OidcRoutes = Ref 15, oidcLog = Ref 16,
       authenticateUser = (\<lambda>um l h. Inr ()),
       authenticateUserSilent = (\<lambda>um l h. Inr ()),
       authenticateUserPopup = (\<lambda>um l h. Inr ()),
       logoutUser = (\<lambda>um. Inr ()),
       Callback = Component 1,
       getUser = (\<lambda>um. Inr ()) \<rparr>"

definition core_failing :: "(string, nat, nat) core" where
  "core_failing =
     core_example\<lparr>authenticateUserSilent := (\<lambda>um l h. Inl (Obj (Some ''login required''))),
                   authenticateUserPopup := (\<lambda>um l h. Inl (Obj (Some ''popup closed'')))\<rparr>"

definition core_throwing :: "(string, nat, nat) core" where
  "core_throwing = core_example\<lparr>getUser := (\<lambda>um. Inl (Obj (Some ''storage unavailable'')))\<rparr>"

section \<open>What each step does\<close>

lemma render_frame:
  "mount (snd (AuthenticationProviderInt F K P p)) = mount p"
  "pending (snd (AuthenticationProviderInt F K P p)) = pending p"
  "live (snd (AuthenticationProviderInt F K P p)) = live p"
  "unhandled (snd (AuthenticationProviderInt F K P p)) = unhandled p"
  "crashed (snd (AuthenticationProviderInt F K P p)) = crashed p"
  "oidcState (snd (AuthenticationProviderInt F K P p)) = oidcState p"
  "calls (snd (AuthenticationProviderInt F K P p)) =
     calls p @ [AuthenticationService (configuration P) (UserStore P)]"
  "handle (fst (AuthenticationProviderInt F K P p)) =
     authenticationServiceInt P (configuration P) (UserStore P)"
  by (simp_all add: AuthenticationProviderInt_def Let_def)

lemma cleanup_frame:
  "mount (cleanup c p) = (mount p)[fst c := False]"
  "pending (cleanup c p) = pending p"
  "live (cleanup c p) = live p"
  "unhandled (cleanup c p) = unhandled p"
  "crashed (cleanup c p) = crashed p"
  "oidcState (cleanup c p) = oidcState p"
  "calls (cleanup c p) = calls p @ [RemoveOidcEvents (snd c)]"
  by (simp_all add: cleanup_def)

lemma commit_effect_frame:
  "oidcState (commit_effect F K P um p) = onLoading F (oidcState p)"
  "unhandled (commit_effect F K P um p) = unhandled p"
  "calls (commit_effect F K P um p) =
     calls p @ [SetLogger (setLoggerInt P) (loggerLevel P) (logger P), AddOidcEvents um, GetUser um]"
  by (simp_all add: commit_effect_def effect_def Let_def split: sum.splits)

lemma commit_effect_returns:
  assumes "getUser K um = Inr x"
  shows "mount (commit_effect F K P um p) = mount p @ [True]"
    and "pending (commit_effect F K P um p) = pending p @ [length (mount p)]"
    and "live (commit_effect F K P um p) = Some (length (mount p), um)"
    and "crashed (commit_effect F K P um p) = crashed p"
  using assms by (simp_all add: commit_effect_def effect_def Let_def)

lemma commit_effect_throws:
  assumes "getUser K um = Inl e"
  shows "mount (commit_effect F K P um p) = mount p"
    and "pending (commit_effect F K P um p) = pending p"
    and "live (commit_effect F K P um p) = None"
    and "crashed (commit_effect F K P um p) = crashed p @ [(um, e)]"
  using assms by (simp_all add: commit_effect_def effect_def Let_def)

lemma commit_effect_live:
  "commit_effect F K P um (p\<lparr>live := x\<rparr>) = commit_effect F K P um p"
  by (simp add: commit_effect_def effect_def Let_def split: sum.splits)

lemma settle_frame:
  "mount (then_only r (getUser_then F i) p) = mount p"
  "pending (then_only r (getUser_then F i) p) = pending p"
  "live (then_only r (getUser_then F i) p) = live p"
  "crashed (then_only r (getUser_then F i) p) = crashed p"
  "calls (then_only r (getUser_then F i) p) = calls p"
  by (simp_all add: then_only_def getUser_then_def split: sum.splits)

lemma step_shape:
  assumes "step F K e p = Some p'"
  shows "(\<exists>P. e = Mount P \<and> live p = None
            \<and> p' = commit_effect F K P (handle_of P)
                     (snd (AuthenticationProviderInt F K P
                            (p\<lparr>oidcState := initialState F (handle_of P)\<rparr>))))
       \<or> (\<exists>P b c0. e = Render P b \<and> live p = Some c0 \<and> \<not> b \<and> handle_of P = snd c0
            \<and> p' = snd (AuthenticationProviderInt F K P p))
       \<or> (\<exists>P b c0. e = Render P b \<and> live p = Some c0 \<and> (b \<or> handle_of P \<noteq> snd c0)
            \<and> p' = commit_effect F K P (handle_of P)
                     ((cleanup c0 (snd (AuthenticationProviderInt F K P p)))\<lparr>live := None\<rparr>))
       \<or> (\<exists>c0. e = Unmount \<and> live p = Some c0 \<and> p' = (cleanup c0 p)\<lparr>live := None\<rparr>)
       \<or> (\<exists>i r. e = GetUserSettles i r \<and> i \<in> set (pending p)
            \<and> p' = then_only r (getUser_then F i) (p\<lparr>pending := removeAll i (pending p)\<rparr>))"
proof (cases e)
  case (Mount P)
  with assms show ?thesis
    by (simp add: case_prod_beta render_frame split: option.splits)
next
  case (Render P b)
  with assms show ?thesis
    by (auto simp: case_prod_beta render_frame commit_effect_live split: option.splits if_splits)
next
  case Unmount
  with assms show ?thesis by (auto split: option.splits)
next
  case (GetUserSettles i r)
  with assms show ?thesis by (auto split: if_splits)
qed

lemma step_preserves:
  assumes s: "step F K e p = Some p'" and i: "Inv p"
    and render: "\<And>P q. Inv q \<Longrightarrow> Inv (snd (AuthenticationProviderInt F K P q))"
    and fresh: "\<And>s q. Inv q \<Longrightarrow> Inv (q\<lparr>oidcState := s\<rparr>)"
    and teardown: "\<And>c0 q. Inv q \<Longrightarrow> live q = Some c0 \<Longrightarrow> Inv ((cleanup c0 q)\<lparr>live := None\<rparr>)"
    and commit: "\<And>P q. event_handle e = Some (handle_of P) \<Longrightarrow> Inv q \<Longrightarrow> live q = None
                  \<Longrightarrow> Inv (commit_effect F K P (handle_of P) q)"
    and settle: "\<And>i r q. Inv q
                  \<Longrightarrow> Inv (then_only r (getUser_then F i) (q\<lparr>pending := removeAll i (pending q)\<rparr>))"
  shows "Inv p'"
proof -
  consider
    (Mount) P where "e = Mount P" "live p = None"
      "p' = commit_effect F K P (handle_of P)
              (snd (AuthenticationProviderInt F K P (p\<lparr>oidcState := initialState F (handle_of P)\<rparr>)))"
  | (Keep) P b where "e = Render P b" "p' = snd (AuthenticationProviderInt F K P p)"
  | (Rerun) P b c0 where "e = Render P b" "live p = Some c0"
      "p' = commit_effect F K P (handle_of P)
              ((cleanup c0 (snd (AuthenticationProviderInt F K P p)))\<lparr>live := None\<rparr>)"
  | (Unmount) c0 where "e = Unmount" "live p = Some c0" "p' = (cleanup c0 p)\<lparr>live := None\<rparr>"
  | (Settle) i r where "e = GetUserSettles i r"
      "p' = then_only r (getUser_then F i) (p\<lparr>pending := removeAll i (pending p)\<rparr>)"
    using step_shape [OF s] by blast
  then show ?thesis
  proof cases
    case Mount
    let ?q = "snd (AuthenticationProviderInt F K P (p\<lparr>oidcState := initialState F (handle_of P)\<rparr>))"
    have "Inv ?q" by (rule render) (rule fresh, rule i)
    moreover have "live ?q = None" using Mount(2) by (simp add: render_frame)
    moreover have "event_handle e = Some (handle_of P)" using Mount(1) by simp
    ultimately show ?thesis unfolding Mount(3) by (intro commit)
  next
    case Keep
    then show ?thesis using render [OF i] by simp
  next
    case Rerun
    let ?q = "(cleanup c0 (snd (AuthenticationProviderInt F K P p)))\<lparr>live := None\<rparr>"
    have "Inv ?q" by (rule teardown) (rule render, rule i, simp add: render_frame Rerun(2))
    moreover have "live ?q = None" by simp
    moreover have "event_handle e = Some (handle_of P)" using Rerun(1) by simp
    ultimately show ?thesis unfolding Rerun(3) by (intro commit)
  next
    case Unmount
    then show ?thesis using teardown [OF i] by simp
  next
    case Settle
    then show ?thesis using settle [OF i] by simp
  qed
qed

lemma run_preserves:
  assumes "run F K evs p = Some p'" and "Inv p"
    and "\<And>e q q'. e \<in> set evs \<Longrightarrow> Inv q \<Longrightarrow> step F K e q = Some q' \<Longrightarrow> Inv q'"
  shows "Inv p'"
  using assms
proof (induction evs arbitrary: p)
  case Nil
  then show ?case by simp
next
  case (Cons e es)
  from Cons.prems(1) obtain p1 where s: "step F K e p = Some p1" and r: "run F K es p1 = Some p'"
    by (simp split: option.splits)
  have 1: "Inv p1" by (rule Cons.prems(3) [OF _ Cons.prems(2) s]) simp
  have 2: "\<And>e' q q'. e' \<in> set es \<Longrightarrow> Inv q \<Longrightarrow> step F K e' q = Some q' \<Longrightarrow> Inv q'"
    using Cons.prems(3) by (meson list.set_intros(2))
  show ?case by (rule Cons.IH [OF r 1 2])
qed

lemma run_append:
  "run F K (es @ fs) p = (case run F K es p of None \<Rightarrow> None | Some p1 \<Rightarrow> run F K fs p1)"
  by (induction es arbitrary: p) (simp_all split: option.splits)

lemmas example_defs = props_example_def core_example_def core_failing_def core_throwing_def
  hook_example_def state_example_def useAuthenticationContextState_def provider0_def
  AuthenticationProviderInt_def effect_def commit_effect_def cleanup_def then_only_def
  getUser_then_def Let_def

section \<open>The mount flag\<close>

lemma mount_inv_provider0: "mount_inv (provider0 s)"
  by (simp add: mount_inv_def provider0_def)

lemma mount_invD:
  assumes "mount_inv p"
  shows "\<And>j. j < length (mount p) \<Longrightarrow> mount p ! j \<Longrightarrow> \<exists>um. live p = Some (j, um)"
    and "\<And>i um. live p = Some (i, um) \<Longrightarrow> i < length (mount p) \<and> mount p ! i"
    and "\<And>i. i \<in> set (pending p) \<Longrightarrow> i < length (mount p)"
  using assms by (auto simp: mount_inv_def)

lemma mount_inv_dead:
  "mount_inv p \<Longrightarrow> live p = None \<Longrightarrow> j < length (mount p) \<Longrightarrow> \<not> mount p ! j"
  by (auto simp: mount_inv_def)

lemma mount_invI:
  assumes "\<And>j. j < length (mount p) \<Longrightarrow> mount p ! j \<Longrightarrow> map_option fst (live p) = Some j"
    and "\<And>i um. live p = Some (i, um) \<Longrightarrow> i < length (mount p) \<and> mount p ! i"
    and "\<And>i. i \<in> set (pending p) \<Longrightarrow> i < length (mount p)"
  shows "mount_inv p"
  using assms by (auto simp: mount_inv_def split: option.splits)

lemma mount_inv_cong:
  assumes "mount_inv p" and m: "mount p' = mount p" and l: "live p' = live p"
    and q: "set (pending p') \<subseteq> set (pending p)"
  shows "mount_inv p'"
proof (rule mount_invI)
  fix j assume "j < length (mount p')" "mount p' ! j"
  with mount_invD(1) [OF assms(1), of j] show "map_option fst (live p') = Some j"
    unfolding m l by auto
next
  fix i um assume "live p' = Some (i, um)"
  with mount_invD(2) [OF assms(1), of i um] show "i < length (mount p') \<and> mount p' ! i"
    unfolding m l by simp
next
  fix i assume "i \<in> set (pending p')"
  with q have "i \<in> set (pending p)" by blast
  with mount_invD(3) [OF assms(1), of i] show "i < length (mount p')"
    unfolding m by simp
qed

lemma mount_inv_commit:
  assumes "mount_inv p" and l: "live p = None"
  shows "mount_inv (commit_effect F K P um p)"
proof (cases "getUser K um")
  case (Inl e)
  show ?thesis
    by (rule mount_inv_cong [OF assms(1)]) (simp_all add: commit_effect_throws [OF Inl] l)
next
  case (Inr x)
  let ?p' = "commit_effect F K P um p"
  note f = commit_effect_returns [OF Inr, of F P p]
  show ?thesis
  proof (rule mount_invI)
    fix j assume "j < length (mount ?p')" "mount ?p' ! j"
    with mount_inv_dead [OF assms(1) l, of j] have "j = length (mount p)"
      by (cases "j < length (mount p)") (auto simp: f nth_append)
    then show "map_option fst (live ?p') = Some j" by (simp add: f)
  next
    fix i h assume "live ?p' = Some (i, h)"
    then have "i = length (mount p)" by (simp add: f)
    then show "i < length (mount ?p') \<and> mount ?p' ! i" by (simp add: f)
  next
    fix i assume "i \<in> set (pending ?p')"
    with mount_invD(3) [OF assms(1), of i] show "i < length (mount ?p')" by (auto simp: f)
  qed
qed

lemma mount_inv_teardown:
  assumes "mount_inv p" and l: "live p = Some c0"
  shows "mount_inv ((cleanup c0 p)\<lparr>live := None\<rparr>)"
proof (rule mount_invI)
  let ?p' = "(cleanup c0 p)\<lparr>live := None\<rparr>"
  have m: "mount ?p' = (mount p)[fst c0 := False]" by (simp add: cleanup_frame)
  fix j assume j: "j < length (mount ?p')" "mount ?p' ! j"
  with m have lt: "j < length (mount p)" and t: "((mount p)[fst c0 := False]) ! j" by simp_all
  from t lt have n: "j \<noteq> fst c0" by (auto simp: nth_list_update)
  with t have "mount p ! j" by simp
  with mount_invD(1) [OF assms(1) lt] l n show "map_option fst (live ?p') = Some j" by auto
next
  fix i um assume "live ((cleanup c0 p)\<lparr>live := None\<rparr>) = Some (i, um)"
  then show "i < length (mount ((cleanup c0 p)\<lparr>live := None\<rparr>))
      \<and> mount ((cleanup c0 p)\<lparr>live := None\<rparr>) ! i" by simp
next
  fix i assume "i \<in> set (pending ((cleanup c0 p)\<lparr>live := None\<rparr>))"
  with mount_invD(3) [OF assms(1), of i]
  show "i < length (mount ((cleanup c0 p)\<lparr>live := None\<rparr>))" by (simp add: cleanup_frame)
qed

lemma mount_inv_state:
  assumes "mount_inv p"
  shows "mount_inv (p\<lparr>oidcState := s\<rparr>)"
proof (rule mount_invI)
  fix j assume "j < length (mount (p\<lparr>oidcState := s\<rparr>))" "mount (p\<lparr>oidcState := s\<rparr>) ! j"
  with mount_invD(1) [OF assms, of j] show "map_option fst (live (p\<lparr>oidcState := s\<rparr>)) = Some j"
    by auto
next
  fix i um assume "live (p\<lparr>oidcState := s\<rparr>) = Some (i, um)"
  with mount_invD(2) [OF assms, of i um]
  show "i < length (mount (p\<lparr>oidcState := s\<rparr>)) \<and> mount (p\<lparr>oidcState := s\<rparr>) ! i"
    by simp
next
  fix i assume "i \<in> set (pending (p\<lparr>oidcState := s\<rparr>))"
  with mount_invD(3) [OF assms, of i] show "i < length (mount (p\<lparr>oidcState := s\<rparr>))"
    by simp
qed

lemma mount_inv_render:
  "mount_inv p \<Longrightarrow> mount_inv (snd (AuthenticationProviderInt F K P p))"
  by (erule mount_inv_cong) (simp_all add: render_frame)

lemma mount_inv_settle:
  "mount_inv p
    \<Longrightarrow> mount_inv (then_only r (getUser_then F i) (p\<lparr>pending := removeAll i (pending p)\<rparr>))"
  by (erule mount_inv_cong) (auto simp: settle_frame)

lemma mount_inv_step:
  assumes "mount_inv p" and "step F K e p = Some p'"
  shows "mount_inv p'"
  by (rule step_preserves [OF assms(2), where Inv = mount_inv])
     (simp_all add: assms(1) mount_inv_render mount_inv_state mount_inv_teardown
        mount_inv_commit mount_inv_settle)

lemma mount_inv_run:
  "mount_inv p \<Longrightarrow> run F K evs p = Some p' \<Longrightarrow> mount_inv p'"
  by (rule run_preserves [where Inv = mount_inv]) (auto intro: mount_inv_step)

lemma dead_settle_frame:
  assumes "mount_inv p" and "live p = None" and "settles e" and "step F K e p = Some p'"
  shows "oidcState p' = oidcState p \<and> calls p' = calls p \<and> live p' = None"
proof -
  from assms(3) obtain i r where e: "e = GetUserSettles i r" by (cases e) simp_all
  from assms(4) e have i: "i \<in> set (pending p)" by (simp split: if_splits)
  with mount_inv_dead [OF assms(1,2)] mount_invD(3) [OF assms(1)] have "\<not> mount p ! i" by blast
  with assms(4) assms(2) e i show ?thesis
    by (auto simp: then_only_def getUser_then_def split: sum.splits)
qed

lemma dead_settles_frame:
  "mount_inv p \<Longrightarrow> live p = None \<Longrightarrow> list_all settles late \<Longrightarrow> run F K late p = Some p'
    \<Longrightarrow> oidcState p' = oidcState p \<and> calls p' = calls p"
proof (induction late arbitrary: p)
  case Nil
  then show ?case by simp
next
  case (Cons e es)
  from Cons.prems(4) obtain p1 where s: "step F K e p = Some p1" and r: "run F K es p1 = Some p'"
    by (simp split: option.splits)
  from Cons.prems(3) have se: "settles e" and ses: "list_all settles es" by simp_all
  from dead_settle_frame [OF Cons.prems(1,2) se s]
  have f: "oidcState p1 = oidcState p" "calls p1 = calls p" "live p1 = None" by simp_all
  from Cons.IH [OF mount_inv_step [OF Cons.prems(1) s] f(3) ses r] f show ?case by simp
qed

text \<open>
  C3, as stated, fails. The provider is mounted and renders again with another logger, so
  the effect is run again; then the fetch started at mount resolves with a user. The
  provider is still mounted, yet the user is dropped: \<open>isAuthenticated\<close> stays false and
  \<open>isLoading\<close> stays true.
\<close>

theorem mounted_fetch_dropped_counterexample:
  "map_option live
     (run hook_example core_example
        [Mount props_example, Render (props_example\<lparr>logger := Ref 9\<rparr>) True,
         GetUserSettles 0 (Inr (Some ''alice''))]
        (provider0 (state_example 7))) = Some (Some (1, 7))
   \<and> map_option (isAuthenticated \<circ> oidcState)
     (run hook_example core_example
        [Mount props_example, Render (props_example\<lparr>logger := Ref 9\<rparr>) True,
         GetUserSettles 0 (Inr (Some ''alice''))]
        (provider0 (state_example 7))) = Some False
   \<and> map_option (isLoading \<circ> oidcState)
     (run hook_example core_example
        [Mount props_example, Render (props_example\<lparr>logger := Ref 9\<rparr>) True,
         GetUserSettles 0 (Inr (Some ''alice''))]
        (provider0 (state_example 7))) = Some True"
  by (simp add: example_defs)

text \<open>
  C3, amended. In any execution, when a pending fetch resolves with a user \<open>u\<close>, the step
  is taken. If the fetch is that of the run of the effect whose cleanup is still pending,
  the continuation applies \<^verbatim>\<open>loadUser(u)\<close>: afterwards \<open>isAuthenticated\<close> is true
  exactly when \<open>u\<close> is not null, \<open>isLoading\<close> is false and the user is \<open>u\<close>. If it is
  the fetch of an earlier run, the state stays as it is. The transitions are those the
  spec gives for the hook.
\<close>

theorem loaded_user_sets_authenticated:
  assumes "run (useAuthenticationContextState init li) K evs (provider0 s0) = Some p"
    and "i \<in> set (pending p)"
  shows "\<exists>p'. step (useAuthenticationContextState init li) K (GetUserSettles i (Inr u)) p = Some p'
           \<and> (if map_option fst (live p) = Some i
               then isAuthenticated (oidcState p') = (u \<noteq> None)
                    \<and> \<not> isLoading (oidcState p')
                    \<and> user (oidcState p') = u
               else oidcState p' = oidcState p)"
proof -
  have inv: "mount_inv p"
    using mount_inv_run [OF mount_inv_provider0 assms(1)] .
  show ?thesis
  proof (cases "map_option fst (live p) = Some i")
    case True
    then obtain um where "live p = Some (i, um)" by (cases "live p") auto
    from mount_invD(2) [OF inv this] have "mount p ! i" by simp
    with assms(2) True show ?thesis
      by (simp add: then_only_def getUser_then_def useAuthenticationContextState_def
          split: option.splits)
  next
    case False
    from mount_invD(3) [OF inv assms(2)] have "i < length (mount p)" .
    with mount_invD(1) [OF inv this] False have "\<not> mount p ! i" by auto
    with assms(2) False show ?thesis
      by (simp add: then_only_def getUser_then_def)
  qed
qed

theorem loaded_user_sets_authenticated_witness:
  "\<exists>p. run hook_example core_example [Mount props_example] (provider0 (state_example 7)) = Some p
      \<and> 0 \<in> set (pending p) \<and> map_option fst (live p) = Some 0
      \<and> (\<exists>p'. step hook_example core_example (GetUserSettles 0 (Inr (Some ''alice''))) p = Some p'
             \<and> isAuthenticated (oidcState p') \<and> \<not> isLoading (oidcState p')
             \<and> user (oidcState p') = Some ''alice'')"
proof -
  obtain p where r: "run (useAuthenticationContextState state_example (\<lambda>s. s)) core_example
        [Mount props_example] (provider0 (state_example 7)) = Some p"
    and l: "map_option fst (live p) = Some 0" and q: "0 \<in> set (pending p)"
    by (simp add: example_defs)
  from loaded_user_sets_authenticated [OF r q, of "Some ''alice''"] r l q
  show ?thesis unfolding hook_example_def by (auto simp del: step.simps run.simps)
qed

text \<open>
  C4. In any execution that ends with the unmount, the cleanup has set every
  \<^verbatim>\<open>mount\<close> flag to false, and however the fetches still pending settle afterwards,
  neither the state nor the record of calls changes: no \<^verbatim>\<open>loadUser\<close> after unmount.
\<close>

theorem no_state_update_after_unmount:
  assumes "run F K (evs @ [Unmount]) (provider0 s0) = Some p"
    and "list_all settles late"
    and "run F K late p = Some p'"
  shows "list_all (\<lambda>b. \<not> b) (mount p) \<and> oidcState p' = oidcState p \<and> calls p' = calls p"
proof -
  have inv: "mount_inv p"
    using mount_inv_run [OF mount_inv_provider0 assms(1)] .
  from assms(1) obtain p1 where "step F K Unmount p1 = Some p"
    by (auto simp: run_append split: option.splits)
  then have l: "live p = None" by (auto split: option.splits)
  from mount_inv_dead [OF inv l] have "list_all (\<lambda>b. \<not> b) (mount p)"
    by (simp add: list_all_length)
  with dead_settles_frame [OF inv l assms(2,3)] show ?thesis by simp
qed

theorem no_state_update_after_unmount_witness:
  "\<exists>p p'. run hook_example core_example ([Mount props_example] @ [Unmount])
             (provider0 (state_example 7)) = Some p
      \<and> list_all settles [GetUserSettles 0 (Inr (Some ''alice''))]
      \<and> run hook_example core_example [GetUserSettles 0 (Inr (Some ''alice''))] p = Some p'
      \<and> list_all (\<lambda>b. \<not> b) (mount p) \<and> oidcState p' = oidcState p \<and> calls p' = calls p"
proof -
  obtain p where r: "run hook_example core_example ([Mount props_example] @ [Unmount])
             (provider0 (state_example 7)) = Some p"
    and q: "0 \<in> set (pending p)"
    by (simp add: example_defs)
  have s: "list_all settles [GetUserSettles 0 (Inr (Some ''alice'')) :: (string, nat, nat, string) event]"
    by simp
  from q obtain p' where
    l: "run hook_example core_example [GetUserSettles 0 (Inr (Some ''alice''))] p = Some p'"
    by simp
  from no_state_update_after_unmount [OF r s l] r s l show ?thesis
    by (auto simp del: step.simps run.simps)
qed

text \<open>
  C7. When a pending \<^verbatim>\<open>getUser()\<close> rejects, the step is taken, the state (its error
  field with it) and the record of calls stay as they are, and the rejection ends among the
  unhandled ones: \<^verbatim>\<open>then\<close> was given no rejection handler.
\<close>

theorem getUser_rejection_ignored:
  assumes "i \<in> set (pending p)"
  shows "\<exists>p'. step F K (GetUserSettles i (Inl e)) p = Some p'
           \<and> oidcState p' = oidcState p
           \<and> calls p' = calls p
           \<and> unhandled p' = unhandled p @ [e]"
  using assms by (simp add: then_only_def)

theorem getUser_rejection_ignored_witness:
  "\<exists>p. run hook_example core_example [Mount props_example] (provider0 (state_example 7)) = Some p
      \<and> 0 \<in> set (pending p)
      \<and> (\<exists>p'. step hook_example core_example (GetUserSettles 0 (Inl (Obj (Some ''offline'')))) p
                  = Some p'
             \<and> error (oidcState p') = None
             \<and> unhandled p' = [Obj (Some ''offline'')])"
proof -
  obtain p where r: "run hook_example core_example [Mount props_example]
        (provider0 (state_example 7)) = Some p"
    and q: "0 \<in> set (pending p)" and e: "error (oidcState p) = None" and u: "unhandled p = []"
    by (simp add: example_defs)
  from getUser_rejection_ignored [OF q, of hook_example core_example "Obj (Some ''offline'')"]
    r q e u
  show ?thesis by (auto simp del: step.simps run.simps)
qed

section \<open>Event subscriptions\<close>

















section \<open>The user-manager handle\<close>

lemma factory_calls_step:
  assumes "step F K e p = Some p'"
  shows "factory_calls p' = factory_calls p + (if renders e then 1 else 0)"
  using step_shape [OF assms]
  by (auto simp: factory_calls_def render_frame cleanup_frame commit_effect_frame settle_frame)

lemma factory_calls_run:
  "run F K evs p = Some p' \<Longrightarrow> factory_calls p' = factory_calls p + length (filter renders evs)"
proof (induction evs arbitrary: p)
  case Nil
  then show ?case by simp
next
  case (Cons e es)
  from Cons.prems obtain p1 where s: "step F K e p = Some p1" and r: "run F K es p1 = Some p'"
    by (simp split: option.splits)
  from Cons.IH [OF r] factory_calls_step [OF s] show ?case by simp
qed

lemma one_handle_provider0: "one_handle h (provider0 s)"
  by (simp add: one_handle_def provider0_def)

lemma one_handle_commit_same:
  assumes "one_handle h p"
  shows "one_handle h (commit_effect F K P h p)"
proof (cases "getUser K h")
  case (Inl x)
  with assms show ?thesis
    by (auto simp: one_handle_def commit_effect_frame commit_effect_throws [OF Inl])
next
  case (Inr x)
  with assms show ?thesis
    by (auto simp: one_handle_def commit_effect_frame commit_effect_returns [OF Inr])
qed

lemma one_handle_commit:
  assumes "event_handle e = None \<or> event_handle e = Some h" and "event_handle e = Some um"
    and "one_handle h p"
  shows "one_handle h (commit_effect F K P um p)"
proof -
  from assms(1,2) have "um = h" by simp
  with one_handle_commit_same [OF assms(3)] show ?thesis by simp
qed

lemma one_handle_teardown:
  assumes "one_handle h p" and "live p = Some c0"
  shows "one_handle h ((cleanup c0 p)\<lparr>live := None\<rparr>)"
  using assms by (auto simp: one_handle_def cleanup_frame)

lemma one_handle_render:
  "one_handle h p \<Longrightarrow> one_handle h (snd (AuthenticationProviderInt F K P p))"
  by (auto simp: one_handle_def render_frame)

lemma one_handle_state:
  "one_handle h p \<Longrightarrow> one_handle h (p\<lparr>oidcState := s\<rparr>)"
  by (simp add: one_handle_def)

lemma one_handle_settle:
  "one_handle h p
    \<Longrightarrow> one_handle h (then_only r (getUser_then F i) (p\<lparr>pending := removeAll i (pending p)\<rparr>))"
  by (simp add: one_handle_def settle_frame)

lemma one_handle_step:
  assumes "one_handle h p" and "step F K e p = Some p'"
    and e: "event_handle e = None \<or> event_handle e = Some h"
  shows "one_handle h p'"
  by (rule step_preserves [OF assms(2), where Inv = "one_handle h"])
     (simp_all add: assms(1) one_handle_render one_handle_state one_handle_teardown
        one_handle_settle one_handle_commit [OF e])

lemma one_handle_run:
  "one_handle h p \<Longrightarrow> run F K evs p = Some p'
    \<Longrightarrow> \<forall>e \<in> set evs. event_handle e = None \<or> event_handle e = Some h
    \<Longrightarrow> one_handle h p'"
  by (rule run_preserves [where Inv = "one_handle h"]) (auto intro: one_handle_step)

lemma commit_effect_binds:
  "live (commit_effect F K P um q) = None
    \<or> map_option snd (live (commit_effect F K P um q)) = Some um"
  by (cases "getUser K um") (simp_all add: commit_effect_throws commit_effect_returns)

lemma render_binds_effect:
  assumes "step F K e p = Some p'" and "event_handle e = Some h"
  shows "live p' = None \<or> map_option snd (live p') = Some h"
proof -
  from step_shape [OF assms(1)] assms(2) consider
    (Run) P q where "handle_of P = h" "p' = commit_effect F K P (handle_of P) q"
  | (Keep) P c0 where "handle_of P = h" "live p = Some c0" "handle_of P = snd c0"
      "p' = snd (AuthenticationProviderInt F K P p)"
    by (elim disjE exE conjE) auto
  then show ?thesis
  proof cases
    case Run
    with commit_effect_binds [of F K P "handle_of P" q] show ?thesis by simp
  next
    case Keep
    then show ?thesis by (simp add: render_frame)
  qed
qed

text \<open>
  C8, as stated, fails: one provider instance, mounted once and rendered once more with
  the same props, has called the factory twice.
\<close>

theorem factory_called_every_render_counterexample:
  "map_option factory_calls
     (run hook_example core_example [Mount props_example, Render props_example False]
        (provider0 (state_example 7))) = Some 2"
  by (simp add: factory_calls_def example_defs)

text \<open>
  C8, amended. The factory is called once in every render (line 107), so as often as the
  provider has rendered. The handle a render gets is the one its login and logout
  callbacks are bound to, and the one the effect in force after the render uses: a mount
  runs the effect on it, and after a mount or a render the pending cleanup, if there is
  one, is bound to it. The context value's \<^verbatim>\<open>events\<close> are those of the handle held in
  the state. When the factory returns the same handle \<open>h\<close> in every render of the
  execution, \<open>h\<close> is the only handle the effect fetches from and subscribes to.
\<close>

theorem factory_called_every_render:
  assumes "run F K evs (provider0 s0) = Some p"
  shows "factory_calls p = length (filter renders evs)
       \<and> handle (fst (AuthenticationProviderInt F K P q)) =
           authenticationServiceInt P (configuration P) (UserStore P)
       \<and> login (context_of F K P q) = loginCallback F P (handle_of P)
       \<and> loginSilent (context_of F K P q) = loginSilentCallback F K P (handle_of P)
       \<and> loginPopup (context_of F K P q) = loginPopupCallback F K P (handle_of P)
       \<and> logout (context_of F K P q) = logoutCallback F P (handle_of P)
       \<and> events (context_of F K P q) = userManager (oidcState q)
       \<and> (step F K (Mount P) q = Some q'
            \<longrightarrow> calls q' = calls q @ [AuthenticationService (configuration P) (UserStore P),
                                      SetLogger (setLoggerInt P) (loggerLevel P) (logger P),
                                      AddOidcEvents (handle_of P), GetUser (handle_of P)])
       \<and> (step F K (Mount P) q = Some q' \<or> step F K (Render P b) q = Some q'
            \<longrightarrow> live q' = None \<or> map_option snd (live q') = Some (handle_of P))
       \<and> ((\<forall>e \<in> set evs. event_handle e = None \<or> event_handle e = Some h)
            \<longrightarrow> (\<forall>c \<in> set (calls p). call_handle c = None \<or> call_handle c = Some h)
                \<and> (live p = None \<or> map_option snd (live p) = Some h))"
proof -
  have 1: "factory_calls p = length (filter renders evs)"
    using factory_calls_run [OF assms] by (simp add: factory_calls_def provider0_def)
  have 2: "(\<forall>e \<in> set evs. event_handle e = None \<or> event_handle e = Some h)
            \<longrightarrow> (\<forall>c \<in> set (calls p). call_handle c = None \<or> call_handle c = Some h)
                \<and> (live p = None \<or> map_option snd (live p) = Some h)"
    using one_handle_run [OF one_handle_provider0 assms] by (simp add: one_handle_def)
  have 3: "handle (fst (AuthenticationProviderInt F K P q)) =
           authenticationServiceInt P (configuration P) (UserStore P)
       \<and> login (context_of F K P q) = loginCallback F P (handle_of P)
       \<and> loginSilent (context_of F K P q) = loginSilentCallback F K P (handle_of P)
       \<and> loginPopup (context_of F K P q) = loginPopupCallback F K P (handle_of P)
       \<and> logout (context_of F K P q) = logoutCallback F P (handle_of P)
       \<and> events (context_of F K P q) = userManager (oidcState q)"
    by (simp add: AuthenticationProviderInt_def Let_def)
  have 4: "step F K (Mount P) q = Some q'
            \<longrightarrow> calls q' = calls q @ [AuthenticationService (configuration P) (UserStore P),
                                      SetLogger (setLoggerInt P) (loggerLevel P) (logger P),
                                      AddOidcEvents (handle_of P), GetUser (handle_of P)]"
  proof
    assume "step F K (Mount P) q = Some q'"
    from step_shape [OF this] show "calls q' = calls q @ [AuthenticationService (configuration P) (UserStore P),
                                      SetLogger (setLoggerInt P) (loggerLevel P) (logger P),
                                      AddOidcEvents (handle_of P), GetUser (handle_of P)]"
      by (auto simp: render_frame commit_effect_frame)
  qed
  have 5: "step F K (Mount P) q = Some q' \<or> step F K (Render P b) q = Some q'
            \<longrightarrow> live q' = None \<or> map_option snd (live q') = Some (handle_of P)"
    using render_binds_effect [of F K "Mount P" q q' "handle_of P"]
      render_binds_effect [of F K "Render P b" q q' "handle_of P"] by auto
  from 1 2 3 4 5 show ?thesis by blast
qed

theorem factory_called_every_render_witness:
  "\<exists>p q'. run hook_example core_example [Mount props_example, Render props_example False]
          (provider0 (state_example 7)) = Some p
      \<and> (\<forall>e \<in> set [Mount props_example, Render props_example False].
            event_handle e = None \<or> event_handle e = Some 7)
      \<and> step hook_example core_example (Mount props_example) (provider0 (state_example 7))
           = Some q'
      \<and> factory_calls p = 2
      \<and> map_option snd (live q') = Some 7
      \<and> (\<forall>c \<in> set (calls p). call_handle c = None \<or> call_handle c = Some 7)
      \<and> map_option snd (live p) = Some 7"
proof -
  obtain p where r: "run hook_example core_example [Mount props_example, Render props_example False]
          (provider0 (state_example 7)) = Some p"
    and l: "live p \<noteq> None"
    by (simp add: example_defs)
  obtain q' where m: "step hook_example core_example (Mount props_example)
      (provider0 (state_example 7)) = Some q'" and l': "live q' \<noteq> None"
    by (simp add: example_defs)
  have e: "\<forall>e \<in> set [Mount props_example, Render props_example False :: (string, nat, nat, string) event].
            event_handle e = None \<or> event_handle e = Some 7"
    and h: "handle_of props_example = 7"
    by (simp_all add: props_example_def)
  from factory_called_every_render [OF r, of props_example "provider0 (state_example 7)" q' False 7]
    r l e m l' h
  show ?thesis by (auto simp del: step.simps run.simps)
qed

section \<open>The callbacks\<close>

text \<open>
  C1. When the sign-out call rejects with an error whose message is \<open>m\<close>, the promise
  \<^verbatim>\<open>logout()\<close> returns is fulfilled (nothing escapes) and the error of the state
  afterwards is \<open>m\<close>, whatever \<^verbatim>\<open>onLogout\<close> did to the state before. The
  transitions are those the spec gives for the hook.
\<close>

theorem logout_rejection_routed:
  assumes "logoutUserInt P (handle_of P) = Inl (Obj (Some m))"
  shows "fst (logout (context_of (useAuthenticationContextState init li) K P p) q) = Inr ()
       \<and> error (oidcState (snd (logout (context_of (useAuthenticationContextState init li) K P p) q))) = Some m"
  using assms
  by (simp add: AuthenticationProviderInt_def logoutCallback_def useAuthenticationContextState_def Let_def)

theorem logout_rejection_routed_witness:
  "logoutUserInt props_example (handle_of props_example) = Inl (Obj (Some ''network down''))
   \<and> fst (logout (context_of hook_example core_example props_example (provider0 (state_example 7))) (provider0 (state_example 7))) = Inr ()
   \<and> error (oidcState (snd (logout (context_of hook_example core_example props_example (provider0 (state_example 7))) (provider0 (state_example 7))))) = Some ''network down''"
proof -
  have h: "logoutUserInt props_example (handle_of props_example) = Inl (Obj (Some ''network down''))"
    by (simp add: props_example_def)
  from logout_rejection_routed [OF h, of state_example "\<lambda>s. s" core_example "provider0 (state_example 7)" "provider0 (state_example 7)"]
  show ?thesis using h by (simp add: hook_example_def)
qed

text \<open>
  C2. When the sign-in call behind \<^verbatim>\<open>login()\<close>, \<^verbatim>\<open>loginSilent()\<close> or
  \<^verbatim>\<open>loginPopup()\<close> rejects, the promise the callback returns is rejected with the same
  value.
\<close>

theorem sign_in_rejection_propagates:
  "(authenticateUserInt P (handle_of P) (location P) (history P) = Inl e1
      \<longrightarrow> fst (login (context_of F K P p) q) = Inl e1)
   \<and> (authenticateUserSilent K (handle_of P) (location P) (history P) = Inl e2
      \<longrightarrow> fst (loginSilent (context_of F K P p) q) = Inl e2)
   \<and> (authenticateUserPopup K (handle_of P) (location P) (history P) = Inl e3
      \<longrightarrow> fst (loginPopup (context_of F K P p) q) = Inl e3)"
  by (simp add: AuthenticationProviderInt_def loginCallback_def loginSilentCallback_def
      loginPopupCallback_def Let_def)

theorem sign_in_rejection_propagates_witness:
  "authenticateUserInt props_example (handle_of props_example) (location props_example)
       (history props_example) = Inl (Obj (Some ''injected sign-in''))
   \<and> authenticateUserSilent core_failing (handle_of props_example) (location props_example)
       (history props_example) = Inl (Obj (Some ''login required''))
   \<and> authenticateUserPopup core_failing (handle_of props_example) (location props_example)
       (history props_example) = Inl (Obj (Some ''popup closed''))
   \<and> fst (login (context_of hook_example core_failing props_example (provider0 (state_example 7)))
            (provider0 (state_example 7))) = Inl (Obj (Some ''injected sign-in''))
   \<and> fst (loginSilent (context_of hook_example core_failing props_example (provider0 (state_example 7)))
            (provider0 (state_example 7))) = Inl (Obj (Some ''login required''))
   \<and> fst (loginPopup (context_of hook_example core_failing props_example (provider0 (state_example 7)))
            (provider0 (state_example 7))) = Inl (Obj (Some ''popup closed''))"
proof -
  have h: "authenticateUserInt props_example (handle_of props_example) (location props_example)
       (history props_example) = Inl (Obj (Some ''injected sign-in''))"
    "authenticateUserSilent core_failing (handle_of props_example) (location props_example)
       (history props_example) = Inl (Obj (Some ''login required''))"
    "authenticateUserPopup core_failing (handle_of props_example) (location props_example)
       (history props_example) = Inl (Obj (Some ''popup closed''))"
    by (simp_all add: props_example_def core_failing_def)
  from sign_in_rejection_propagates [where P = props_example and K = core_failing
      and F = hook_example and p = "provider0 (state_example 7)"
      and q = "provider0 (state_example 7)" and ?e1.0 = "Obj (Some ''injected sign-in'')"
      and ?e2.0 = "Obj (Some ''login required'')" and ?e3.0 = "Obj (Some ''popup closed'')"] h
  show ?thesis by blast
qed

text \<open>
  C10. When the sign-in call behind \<^verbatim>\<open>login()\<close>, \<^verbatim>\<open>loginSilent()\<close> or
  \<^verbatim>\<open>loginPopup()\<close> rejects, the state afterwards is the state before with
  \<open>isLoading\<close> set to true: error, user and \<open>isAuthenticated\<close> are as they were. The
  transitions are those the spec gives for the hook.
\<close>

theorem failed_sign_in_only_sets_loading:
  "(authenticateUserInt P (handle_of P) (location P) (history P) = Inl e1
      \<longrightarrow> oidcState (snd (login (context_of (useAuthenticationContextState init li) K P p) q))
           = (oidcState q)\<lparr>isLoading := True\<rparr>)
   \<and> (authenticateUserSilent K (handle_of P) (location P) (history P) = Inl e2
      \<longrightarrow> oidcState (snd (loginSilent (context_of (useAuthenticationContextState init li) K P p) q))
           = (oidcState q)\<lparr>isLoading := True\<rparr>)
   \<and> (authenticateUserPopup K (handle_of P) (location P) (history P) = Inl e3
      \<longrightarrow> oidcState (snd (loginPopup (context_of (useAuthenticationContextState init li) K P p) q))
           = (oidcState q)\<lparr>isLoading := True\<rparr>)"
  by (simp add: AuthenticationProviderInt_def loginCallback_def loginSilentCallback_def
      loginPopupCallback_def useAuthenticationContextState_def Let_def)

theorem failed_sign_in_only_sets_loading_witness:
  "authenticateUserInt props_example (handle_of props_example) (location props_example)
       (history props_example) = Inl (Obj (Some ''injected sign-in''))
   \<and> authenticateUserSilent core_failing (handle_of props_example) (location props_example)
       (history props_example) = Inl (Obj (Some ''login required''))
   \<and> authenticateUserPopup core_failing (handle_of props_example) (location props_example)
       (history props_example) = Inl (Obj (Some ''popup closed''))
   \<and> oidcState (snd (login (context_of hook_example core_failing props_example
                              (provider0 (state_example 7))) (provider0 (state_example 7))))
       = (state_example 7)\<lparr>isLoading := True\<rparr>
   \<and> oidcState (snd (loginSilent (context_of hook_example core_failing props_example
                                    (provider0 (state_example 7))) (provider0 (state_example 7))))
       = (state_example 7)\<lparr>isLoading := True\<rparr>
   \<and> oidcState (snd (loginPopup (context_of hook_example core_failing props_example
                                   (provider0 (state_example 7))) (provider0 (state_example 7))))
       = (state_example 7)\<lparr>isLoading := True\<rparr>"
proof -
  have h: "authenticateUserInt props_example (handle_of props_example) (location props_example)
       (history props_example) = Inl (Obj (Some ''injected sign-in''))"
    "authenticateUserSilent core_failing (handle_of props_example) (location props_example)
       (history props_example) = Inl (Obj (Some ''login required''))"
    "authenticateUserPopup core_failing (handle_of props_example) (location props_example)
       (history props_example) = Inl (Obj (Some ''popup closed''))"
    by (simp_all add: props_example_def core_failing_def)
  from failed_sign_in_only_sets_loading [where P = props_example and K = core_failing
      and init = state_example and li = "\<lambda>s. s" and p = "provider0 (state_example 7)"
      and q = "provider0 (state_example 7)" and ?e1.0 = "Obj (Some ''injected sign-in'')"
      and ?e2.0 = "Obj (Some ''login required'')" and ?e3.0 = "Obj (Some ''popup closed'')"] h
  show ?thesis unfolding hook_example_def by (simp add: provider0_def)
qed



section \<open>Configuration passes through\<close>

text \<open>
  C9. In every render the factory is called with the configuration given in the props:
  the call is on record with that configuration, and the handle of the render is what
  the injected factory makes of it. The \<^verbatim>\<open>configuration\<close> prop of the routing element
  is that configuration too.
\<close>

theorem configuration_passed_unmodified:
  "calls (snd (AuthenticationProviderInt F K P p)) =
     calls p @ [AuthenticationService (configuration P) (UserStore P)]
   \<and> handle (fst (AuthenticationProviderInt F K P p)) =
       authenticationServiceInt P (configuration P) (UserStore P)
   \<and> routes_configuration (element (fst (AuthenticationProviderInt F K P p))) = configuration P"
  by (simp add: AuthenticationProviderInt_def Let_def)

end
